theory Spec2Isabelle
  imports Complex_Main "HOL-Library.Sublist"
begin

section \<open>Characters and the string methods of the source language\<close>

text \<open>
  Python strings are sequences of code points.  They are modelled as HOL strings, whose
  characters are the code points 0..255; the classes below are the ones Python's
  \<^verbatim>\<open>str\<close> methods and \<^verbatim>\<open>re\<close> module use on that range.
\<close>

definition code :: "char \<Rightarrow> nat" where
  "code c = of_char c"

definition in_range :: "nat \<Rightarrow> nat \<Rightarrow> char \<Rightarrow> bool" where
  "in_range lo hi c = (lo \<le> code c \<and> code c \<le> hi)"

definition newline :: char where
  "newline = CHR 0x0A"

text \<open>\<^verbatim>\<open>str.isspace\<close> of one character, which is also the class \<^verbatim>\<open>\s\<close>.\<close>

definition is_space :: "char \<Rightarrow> bool" where
  "is_space c = (in_range 0x09 0x0D c \<or> in_range 0x1C 0x20 c \<or> code c = 0x85 \<or> code c = 0xA0)"

text \<open>The class \<^verbatim>\<open>\d\<close>, equal to \<^verbatim>\<open>[0-9]\<close> on this range.\<close>

definition is_digit :: "char \<Rightarrow> bool" where
  "is_digit c = in_range 0x30 0x39 c"

definition is_ascii_upper :: "char \<Rightarrow> bool" where
  "is_ascii_upper c = in_range 0x41 0x5A c"

definition is_ascii_lower :: "char \<Rightarrow> bool" where
  "is_ascii_lower c = in_range 0x61 0x7A c"

definition is_ascii_alpha :: "char \<Rightarrow> bool" where
  "is_ascii_alpha c = (is_ascii_upper c \<or> is_ascii_lower c)"

text \<open>\<^verbatim>\<open>str.isupper\<close> and \<^verbatim>\<open>str.islower\<close> of one character.\<close>

definition is_upper_char :: "char \<Rightarrow> bool" where
  "is_upper_char c = (in_range 0x41 0x5A c \<or> in_range 0xC0 0xD6 c \<or> in_range 0xD8 0xDE c)"

definition is_lower_char :: "char \<Rightarrow> bool" where
  "is_lower_char c = (in_range 0x61 0x7A c \<or> code c = 0xAA \<or> code c = 0xB5 \<or> code c = 0xBA
     \<or> in_range 0xDF 0xF6 c \<or> in_range 0xF8 0xFF c)"

text \<open>The class \<^verbatim>\<open>\w\<close>: alphanumeric characters and the underscore.\<close>

definition is_word :: "char \<Rightarrow> bool" where
  "is_word c = (is_digit c \<or> is_upper_char c \<or> is_lower_char c \<or> code c = 0x5F
     \<or> in_range 0xB2 0xB3 c \<or> code c = 0xB9 \<or> in_range 0xBC 0xBE c)"

text \<open>The class \<^verbatim>\<open>.\<close> (without DOTALL): anything but a newline.\<close>

definition is_dot :: "char \<Rightarrow> bool" where
  "is_dot c = (c \<noteq> newline)"

text \<open>\<^verbatim>\<open>str.isprintable\<close> of one character.\<close>

definition is_printable :: "char \<Rightarrow> bool" where
  "is_printable c = (in_range 0x20 0x7E c \<or> in_range 0xA1 0xAC c \<or> in_range 0xAE 0xFF c)"

text \<open>The sentence punctuation \<^verbatim>\<open>[.,;:!?]\<close>.\<close>

definition is_punct :: "char \<Rightarrow> bool" where
  "is_punct c = (c \<in> set ''.,;:!?'')"

definition lower_char :: "char \<Rightarrow> char" where
  "lower_char c = (if is_upper_char c then char_of (code c + 32) else c)"

text \<open>
  \<^verbatim>\<open>str.upper\<close> of one character.  The source applies it to the values of the
  abbreviation table only, which are ASCII; the characters whose upper case is not a
  single code point below 256 are left as they are.
\<close>

definition upper_char :: "char \<Rightarrow> char" where
  "upper_char c = (if in_range 0x61 0x7A c \<or> in_range 0xE0 0xF6 c \<or> in_range 0xF8 0xFE c
     then char_of (code c - 32) else c)"

definition lower :: "string \<Rightarrow> string" where
  "lower s = map lower_char s"

definition upper :: "string \<Rightarrow> string" where
  "upper s = map upper_char s"

text \<open>\<^verbatim>\<open>str.strip(chars)\<close>, with the set of characters as a predicate.\<close>

definition strip_chars :: "(char \<Rightarrow> bool) \<Rightarrow> string \<Rightarrow> string" where
  "strip_chars p s = rev (dropWhile p (rev (dropWhile p s)))"

definition strip :: "string \<Rightarrow> string" where
  "strip s = strip_chars is_space s"

text \<open>\<^verbatim>\<open>str.isupper\<close>: no lower-case character and at least one upper-case one.\<close>

definition isupper :: "string \<Rightarrow> bool" where
  "isupper s = ((\<forall>c \<in> set s. \<not> is_lower_char c) \<and> (\<exists>c \<in> set s. is_upper_char c))"

text \<open>
  \<^verbatim>\<open>str.istitle\<close>: upper-case characters follow uncased ones only, lower-case
  characters follow cased ones only, and there is a cased character.  The two flags are
  CPython's \<^verbatim>\<open>previous_is_cased\<close> and \<^verbatim>\<open>cased\<close>.
\<close>

fun istitle_loop :: "bool \<Rightarrow> bool \<Rightarrow> string \<Rightarrow> bool" where
  "istitle_loop prev cased [] = cased"
| "istitle_loop prev cased (c # cs) =
     (if is_upper_char c then (if prev then False else istitle_loop True True cs)
      else if is_lower_char c then (if \<not> prev then False else istitle_loop True True cs)
      else istitle_loop False cased cs)"

definition istitle :: "string \<Rightarrow> bool" where
  "istitle s = istitle_loop False False s"

text \<open>\<^verbatim>\<open>str.title\<close>: a cased character is lowered after a cased one, raised otherwise.\<close>

fun title_loop :: "bool \<Rightarrow> string \<Rightarrow> string" where
  "title_loop prev [] = []"
| "title_loop prev (c # cs) =
     (if prev then lower_char c else upper_char c)
       # title_loop (is_upper_char c \<or> is_lower_char c) cs"

definition title :: "string \<Rightarrow> string" where
  "title s = title_loop False s"


section \<open>Regular expressions\<close>

text \<open>
  The patterns of the source, as abstract syntax.  Every repetition in the source repeats
  a one-character class, so \<open>Rep\<close> (greedy) and \<open>RepLazy\<close> take the class, the
  least and the greatest number of repetitions (\<open>None\<close>: unbounded).
\<close>

datatype regex =
    Eps
  | Cls "char \<Rightarrow> bool"
  | Seq regex regex
  | Alt regex regex
  | Rep "char \<Rightarrow> bool" nat "nat option"
  | RepLazy "char \<Rightarrow> bool" nat "nat option"
  | Group nat regex
  | WordB
  | Bol
  | Eol
  | Ahead regex
  | NotAhead regex

text \<open>Captured groups: group number to captured text.\<close>

type_synonym caps = "nat \<Rightarrow> string option"

text \<open>
  A position in the subject: the character before it (\<open>None\<close> at the start), the text
  from it on, and the groups captured so far.
\<close>

type_synonym mstate = "char option \<times> string \<times> caps"

definition last_char :: "char option \<Rightarrow> string \<Rightarrow> char option" where
  "last_char pv m = (if m = [] then pv else Some (last m))"

text \<open>\<^verbatim>\<open>\b\<close>: exactly one of the two neighbours is a word character.\<close>

definition at_word_boundary :: "char option \<Rightarrow> string \<Rightarrow> bool" where
  "at_word_boundary pv rest =
     ((case pv of None \<Rightarrow> False | Some c \<Rightarrow> is_word c)
        \<noteq> (case rest of [] \<Rightarrow> False | c # _ \<Rightarrow> is_word c))"

definition rep_counts :: "(char \<Rightarrow> bool) \<Rightarrow> nat \<Rightarrow> nat option \<Rightarrow> string \<Rightarrow> nat list" where
  "rep_counts p lo hi rest =
     (let k = length (takeWhile p rest);
          k' = (case hi of None \<Rightarrow> k | Some h \<Rightarrow> min k h)
      in [lo ..< Suc k'])"

text \<open>
  The backtracking matcher as a list of successes: all the ways the pattern matches at
  the position, in the order the engine tries them, each with the position after the
  match.  The engine's match is the first one.
\<close>

primrec ends :: "regex \<Rightarrow> mstate \<Rightarrow> mstate list" where
  "ends Eps st = [st]"
| "ends (Cls p) st =
     (case st of (pv, rest, g) \<Rightarrow>
        (case rest of [] \<Rightarrow> [] | c # cs \<Rightarrow> if p c then [(Some c, cs, g)] else []))"
| "ends (Seq a b) st = concat (map (ends b) (ends a st))"
| "ends (Alt a b) st = ends a st @ ends b st"
| "ends (Rep p lo hi) st =
     (case st of (pv, rest, g) \<Rightarrow>
        map (\<lambda>n. (last_char pv (take n rest), drop n rest, g)) (rev (rep_counts p lo hi rest)))"
| "ends (RepLazy p lo hi) st =
     (case st of (pv, rest, g) \<Rightarrow>
        map (\<lambda>n. (last_char pv (take n rest), drop n rest, g)) (rep_counts p lo hi rest))"
| "ends (Group i r) st =
     (case st of (pv, rest, g) \<Rightarrow>
        map (\<lambda>(pv', rest', g'). (pv', rest', g'(i \<mapsto> take (length rest - length rest') rest)))
          (ends r st))"
| "ends WordB st = (case st of (pv, rest, g) \<Rightarrow> if at_word_boundary pv rest then [st] else [])"
| "ends Bol st = (case st of (pv, rest, g) \<Rightarrow> if pv = None then [st] else [])"
| "ends Eol st =
     (case st of (pv, rest, g) \<Rightarrow> if rest = [] \<or> rest = [newline] then [st] else [])"
| "ends (Ahead r) st =
     (case st of (pv, rest, g) \<Rightarrow>
        (case ends r st of [] \<Rightarrow> [] | (pv', rest', g') # _ \<Rightarrow> [(pv, rest, g')]))"
| "ends (NotAhead r) st = (case ends r st of [] \<Rightarrow> [st] | _ # _ \<Rightarrow> [])"

text \<open>The number of capturing groups of a pattern.\<close>

primrec ngroups :: "regex \<Rightarrow> nat" where
  "ngroups Eps = 0"
| "ngroups (Cls p) = 0"
| "ngroups (Seq a b) = ngroups a + ngroups b"
| "ngroups (Alt a b) = ngroups a + ngroups b"
| "ngroups (Rep p lo hi) = 0"
| "ngroups (RepLazy p lo hi) = 0"
| "ngroups (Group i r) = Suc (ngroups r)"
| "ngroups WordB = 0"
| "ngroups Bol = 0"
| "ngroups Eol = 0"
| "ngroups (Ahead r) = ngroups r"
| "ngroups (NotAhead r) = ngroups r"

text \<open>
  A match at the position: the matched text and the groups.  With \<open>adv\<close> (the engine's
  \<^verbatim>\<open>must_advance\<close>, set after an empty match) an empty match is refused.
\<close>

definition match_here :: "regex \<Rightarrow> bool \<Rightarrow> char option \<Rightarrow> string \<Rightarrow> (string \<times> caps) option" where
  "match_here r adv pv rest =
     (case filter (\<lambda>(pv', rest', g). \<not> adv \<or> length rest' < length rest)
             (ends r (pv, rest, Map.empty)) of
        [] \<Rightarrow> None
      | (pv', rest', g) # _ \<Rightarrow> Some (take (length rest - length rest') rest, g))"

text \<open>
  \<^verbatim>\<open>re.search\<close> from a position: the text skipped before the leftmost match, the
  matched text and the groups.
\<close>

fun search :: "regex \<Rightarrow> bool \<Rightarrow> char option \<Rightarrow> string \<Rightarrow> (string \<times> string \<times> caps) option" where
  "search r adv pv [] =
     (case match_here r adv pv [] of None \<Rightarrow> None | Some (m, g) \<Rightarrow> Some ([], m, g))"
| "search r adv pv (c # cs) =
     (case match_here r adv pv (c # cs) of
        Some (m, g) \<Rightarrow> Some ([], m, g)
      | None \<Rightarrow>
         (case search r False (Some c) cs of
            None \<Rightarrow> None
          | Some (skip, m, g) \<Rightarrow> Some (c # skip, m, g)))"

lemma match_here_prefix: "match_here r adv pv rest = Some (m, g) \<Longrightarrow> prefix m rest"
  by (auto simp: match_here_def take_is_prefix split: list.splits)

lemma match_here_adv: "match_here r True pv rest = Some (m, g) \<Longrightarrow> m \<noteq> []"
proof -
  assume a: "match_here r True pv rest = Some (m, g)"
  then obtain pv' rest' g' xs where
    f: "filter (\<lambda>(pv', rest', g). \<not> True \<or> length rest' < length rest)
          (ends r (pv, rest, Map.empty)) = (pv', rest', g') # xs"
    and m: "m = take (length rest - length rest') rest"
    by (auto simp: match_here_def split: list.splits)
  have "(pv', rest', g') \<in> set (filter (\<lambda>(pv', rest', g). \<not> True \<or> length rest' < length rest)
          (ends r (pv, rest, Map.empty)))"
    unfolding f by simp
  then have "length rest' < length rest" by simp
  with m show "m \<noteq> []" by auto
qed

lemma search_prefix: "search r adv pv rest = Some (skip, m, g) \<Longrightarrow> prefix (skip @ m) rest"
proof (induction rest arbitrary: adv pv skip)
  case Nil
  then show ?case by (auto split: option.splits dest: match_here_prefix)
next
  case (Cons c cs)
  show ?case
  proof (cases "match_here r adv pv (c # cs)")
    case None
    with Cons.prems obtain skip' where s: "search r False (Some c) cs = Some (skip', m, g)"
      and k: "skip = c # skip'"
      by (auto split: option.splits)
    from Cons.IH [OF s] k show ?thesis by simp
  next
    case (Some a)
    with Cons.prems show ?thesis by (auto dest: match_here_prefix)
  qed
qed

lemma search_adv: "search r True pv rest = Some (skip, m, g) \<Longrightarrow> skip \<noteq> [] \<or> m \<noteq> []"
  by (cases rest) (auto split: option.splits dest: match_here_adv)

text \<open>
  The loop of \<^verbatim>\<open>re.sub\<close>: the text before each match is copied, the match is replaced
  by \<open>f\<close> of its groups and text, and the search resumes after the match.
\<close>

function sub_loop :: "regex \<Rightarrow> (caps \<Rightarrow> string \<Rightarrow> string) \<Rightarrow> bool \<Rightarrow> char option \<Rightarrow> string \<Rightarrow> string" where
  "sub_loop r f adv pv rest =
     (case search r adv pv rest of
        None \<Rightarrow> rest
      | Some (skip, m, g) \<Rightarrow>
          skip @ f g m
            @ sub_loop r f (m = []) (last_char pv (skip @ m)) (drop (length skip + length m) rest))"
  by pat_completeness auto
termination
proof (relation "measure (\<lambda>(r, f, adv, pv, rest). 2 * length rest + (if adv then 0 else 1))",
    goal_cases)
  case 1
  show ?case by simp
next
  case (2 r f adv pv rest x skip y m g)
  then have s: "search r adv pv rest = Some (skip, m, g)" by simp
  from search_prefix [OF s] have le: "length skip + length m \<le> length rest"
    by (auto simp: prefix_def)
  show ?case
  proof (cases "skip = [] \<and> m = []")
    case True
    with s search_adv [of r pv rest skip m g] have "\<not> adv" by (cases adv) auto
    with True show ?thesis by simp
  next
    case False
    then have pos: "0 < length skip + length m" by (cases skip; cases m; simp)
    define a b n where "a = length skip" and "b = length m" and "n = length rest"
    have mb: "(m = []) = (b = 0)" by (simp add: b_def)
    from pos le have "0 < a + b" "a + b \<le> n" by (simp_all add: a_def b_def n_def)
    then have "2 * (n - (a + b)) + (if b = 0 then 0 else 1) < 2 * n + (if adv then 0 else 1)"
      by (cases "b = 0"; cases adv; simp)
    then show ?thesis by (simp add: mb a_def [symmetric] b_def [symmetric] n_def [symmetric])
  qed
qed

text \<open>The loop of \<^verbatim>\<open>re.findall\<close> for a pattern without groups: the matched texts.\<close>

function findall_loop :: "regex \<Rightarrow> bool \<Rightarrow> char option \<Rightarrow> string \<Rightarrow> string list" where
  "findall_loop r adv pv rest =
     (case search r adv pv rest of
        None \<Rightarrow> []
      | Some (skip, m, g) \<Rightarrow>
          m # findall_loop r (m = []) (last_char pv (skip @ m)) (drop (length skip + length m) rest))"
  by pat_completeness auto
termination
proof (relation "measure (\<lambda>(r, adv, pv, rest). 2 * length rest + (if adv then 0 else 1))",
    goal_cases)
  case 1
  show ?case by simp
next
  case (2 r adv pv rest x skip y m g)
  then have s: "search r adv pv rest = Some (skip, m, g)" by simp
  from search_prefix [OF s] have le: "length skip + length m \<le> length rest"
    by (auto simp: prefix_def)
  show ?case
  proof (cases "skip = [] \<and> m = []")
    case True
    with s search_adv [of r pv rest skip m g] have "\<not> adv" by (cases adv) auto
    with True show ?thesis by simp
  next
    case False
    then have pos: "0 < length skip + length m" by (cases skip; cases m; simp)
    define a b n where "a = length skip" and "b = length m" and "n = length rest"
    have mb: "(m = []) = (b = 0)" by (simp add: b_def)
    from pos le have "0 < a + b" "a + b \<le> n" by (simp_all add: a_def b_def n_def)
    then have "2 * (n - (a + b)) + (if b = 0 then 0 else 1) < 2 * n + (if adv then 0 else 1)"
      by (cases "b = 0"; cases adv; simp)
    then show ?thesis by (simp add: mb a_def [symmetric] b_def [symmetric] n_def [symmetric])
  qed
qed

definition findall :: "regex \<Rightarrow> string \<Rightarrow> string list" where
  "findall r s = findall_loop r False None s"

text \<open>\<^verbatim>\<open>re.search\<close> and \<^verbatim>\<open>re.match\<close>, used by the source as truth values.\<close>

definition re_search :: "regex \<Rightarrow> string \<Rightarrow> bool" where
  "re_search r s = (search r False None s \<noteq> None)"

definition re_match :: "regex \<Rightarrow> string \<Rightarrow> bool" where
  "re_match r s = (match_here r False None s \<noteq> None)"


section \<open>Replacement templates and \<^verbatim>\<open>re.sub\<close>\<close>

text \<open>
  A replacement is a template (literal text and group references such as \<^verbatim>\<open>\1\<close> or
  \<^verbatim>\<open>\g<1>\<close>) or a function of the matched text.
\<close>

datatype titem = TLit string | TGroup nat

datatype repl = Template "titem list" | Callable "string \<Rightarrow> string"

datatype error = InvalidGroupReference nat | ZeroDivisionError

text \<open>
  \<^verbatim>\<open>re.sub\<close> compiles the template before it searches: a reference to a group the
  pattern does not have raises \<^verbatim>\<open>re.error\<close>, whatever the subject is.
\<close>

fun compile_template :: "nat \<Rightarrow> titem list \<Rightarrow> error + titem list" where
  "compile_template n [] = Inr []"
| "compile_template n (TLit s # ts) =
     (case compile_template n ts of Inl e \<Rightarrow> Inl e | Inr ts' \<Rightarrow> Inr (TLit s # ts'))"
| "compile_template n (TGroup i # ts) =
     (if i > n then Inl (InvalidGroupReference i)
      else (case compile_template n ts of Inl e \<Rightarrow> Inl e | Inr ts' \<Rightarrow> Inr (TGroup i # ts')))"

text \<open>Expanding a template: a group that took no part in the match gives the empty text.\<close>

fun expand :: "titem list \<Rightarrow> caps \<Rightarrow> string" where
  "expand [] g = []"
| "expand (TLit s # ts) g = s @ expand ts g"
| "expand (TGroup i # ts) g = (case g i of None \<Rightarrow> [] | Some s \<Rightarrow> s) @ expand ts g"

definition re_sub :: "regex \<Rightarrow> repl \<Rightarrow> string \<Rightarrow> error + string" where
  "re_sub r rep text =
     (case rep of
        Callable f \<Rightarrow> Inr (sub_loop r (\<lambda>g m. f m) False None text)
      | Template t \<Rightarrow>
          (case compile_template (ngroups r) t of
             Inl e \<Rightarrow> Inl e
           | Inr t' \<Rightarrow> Inr (sub_loop r (\<lambda>g m. expand t' g) False None text)))"

text \<open>Writing patterns: a literal character, a literal text, a sequence.\<close>

definition chr :: "char \<Rightarrow> regex" where
  "chr c = Cls (\<lambda>x. x = c)"

definition one_of :: "string \<Rightarrow> regex" where
  "one_of cs = Cls (\<lambda>x. x \<in> set cs)"

fun seqs :: "regex list \<Rightarrow> regex" where
  "seqs [] = Eps"
| "seqs [r] = r"
| "seqs (r # rs) = Seq r (seqs rs)"

definition lit :: "string \<Rightarrow> regex" where
  "lit s = seqs (map chr s)"

definition digits1 :: regex where
  "digits1 = Rep is_digit 1 None"

section \<open>The Error Corrector\<close>

text \<open>
  \<^verbatim>\<open>OCR_ERROR_PATTERNS\<close>: the dictionary in its insertion order, which is the order
  \<^verbatim>\<open>fix_ocr_errors\<close> applies it in.
\<close>

definition OCR_ERROR_PATTERNS :: "(regex \<times> repl) list" where
  \<open>OCR_ERROR_PATTERNS =
   [ \<comment> \<open>\<^verbatim>\<open>\b([0-9]+)O([0-9]+)\b\<close> to \<^verbatim>\<open>\1\2\<close>\<close>
     (seqs [WordB, Group 1 digits1, chr CHR ''O'', Group 2 digits1, WordB],
      Template [TGroup 1, TGroup 2]),
     \<comment> \<open>\<^verbatim>\<open>\b([0-9]+)o([0-9]+)\b\<close> to \<^verbatim>\<open>\1\2\<close>\<close>
     (seqs [WordB, Group 1 digits1, chr CHR ''o'', Group 2 digits1, WordB],
      Template [TGroup 1, TGroup 2]),
     \<comment> \<open>\<^verbatim>\<open>\bl([0-9]+)\b\<close> to \<^verbatim>\<open>1\2\<close>\<close>
     (seqs [WordB, chr CHR ''l'', Group 1 digits1, WordB],
      Template [TLit ''1'', TGroup 2]),
     \<comment> \<open>\<^verbatim>\<open>\bI([0-9]+)\b\<close> to \<^verbatim>\<open>1\2\<close>\<close>
     (seqs [WordB, chr CHR ''I'', Group 1 digits1, WordB],
      Template [TLit ''1'', TGroup 2]),
     \<comment> \<open>\<^verbatim>\<open>\b([0-9]+)l\b\<close> to \<^verbatim>\<open>\g<1>1\<close>\<close>
     (seqs [WordB, Group 1 digits1, chr CHR ''l'', WordB],
      Template [TGroup 1, TLit ''1'']),
     \<comment> \<open>\<^verbatim>\<open>\b([0-9]+)I\b\<close> to \<^verbatim>\<open>\g<1>1\<close>\<close>
     (seqs [WordB, Group 1 digits1, chr CHR ''I'', WordB],
      Template [TGroup 1, TLit ''1'']),
     (seqs [WordB, lit ''Asplrln'', WordB], Template [TLit ''Aspirin'']),
     (seqs [WordB, lit ''Metforrnln'', WordB], Template [TLit ''Metformin'']),
     (seqs [WordB, lit ''Llslnopril'', WordB], Template [TLit ''Lisinopril'']),
     (seqs [WordB, lit ''Amoxlcillln'', WordB], Template [TLit ''Amoxicillin'']),
     (seqs [WordB, lit ''Prednlsone'', WordB], Template [TLit ''Prednisone'']),
     \<comment> \<open>\<^verbatim>\<open>\bmg\b(?=[0-9])\<close> to \<^verbatim>\<open>mg \<close>\<close>
     (seqs [WordB, lit ''mg'', WordB, Ahead (Cls is_digit)], Template [TLit ''mg '']),
     \<comment> \<open>\<^verbatim>\<open>\b([0-9]+)mg(?![a-z])\b\<close> to \<^verbatim>\<open>\1 mg\<close>\<close>
     (seqs [WordB, Group 1 digits1, lit ''mg'', NotAhead (Cls is_ascii_lower), WordB],
      Template [TGroup 1, TLit '' mg'']),
     \<comment> \<open>\<^verbatim>\<open>\b([0-9]+)ml(?![a-z])\b\<close> to \<^verbatim>\<open>\1 ml\<close>\<close>
     (seqs [WordB, Group 1 digits1, lit ''ml'', NotAhead (Cls is_ascii_lower), WordB],
      Template [TGroup 1, TLit '' ml'']),
     \<comment> \<open>\<^verbatim>\<open>\s+\<close> to one space\<close>
     (Rep is_space 1 None, Template [TLit '' '']),
     \<comment> \<open>\<^verbatim>\<open>\n+\<close> to one newline\<close>
     (Rep (\<lambda>c. c = newline) 1 None, Template [TLit [newline]]) ]\<close>

text \<open>\<^verbatim>\<open>suggest_medication_name\<close>\<close>

definition common_medications :: "string list" where
  "common_medications =
     [''Aspirin'', ''Metformin'', ''Lisinopril'', ''Amoxicillin'', ''Prednisone'',
      ''Atorvastatin'', ''Simvastatin'', ''Omeprazole'', ''Levothyroxine'', ''Warfarin'']"

text \<open>
  The test \<^verbatim>\<open>len(set(a) & set(b)) >= len(med) * 0.6\<close> compares a whole number with
  six tenths of a whole number; it is written here without the division.
\<close>

definition similar :: "string \<Rightarrow> string \<Rightarrow> bool" where
  "similar garbled_lower med =
     (5 * card (set garbled_lower \<inter> set (lower med)) \<ge> 3 * length med)"

definition suggest_medication_name :: "string \<Rightarrow> string" where
  "suggest_medication_name garbled_name =
     (case filter (similar (lower garbled_name)) common_medications of
        med # _ \<Rightarrow> ''[POSSIBLY: '' @ med @ '']''
      | [] \<Rightarrow> ''[UNCLEAR MEDICATION: '' @ garbled_name @ '']'')"

text \<open>The dictionary \<^verbatim>\<open>aggressive_patterns\<close> of \<^verbatim>\<open>fix_ocr_errors\<close>, in its order.\<close>

definition aggressive_patterns :: "(regex \<times> repl) list" where
  \<open>aggressive_patterns =
   [ \<comment> \<open>\<^verbatim>\<open>\b[A-Z]{2,}[a-z]{2,}[A-Z]{2,}\b\<close>\<close>
     (seqs [WordB, Rep is_ascii_upper 2 None, Rep is_ascii_lower 2 None,
            Rep is_ascii_upper 2 None, WordB],
      Callable suggest_medication_name),
     \<comment> \<open>\<^verbatim>\<open>\b(\d+)[Oo](\d+)\b\<close> to \<^verbatim>\<open>\1\2\<close>\<close>
     (seqs [WordB, Group 1 digits1, one_of ''Oo'', Group 2 digits1, WordB],
      Template [TGroup 1, TGroup 2]),
     \<comment> \<open>\<^verbatim>\<open>\b[Il](\d+)\b\<close> to \<^verbatim>\<open>1\2\<close>\<close>
     (seqs [WordB, one_of ''Il'', Group 1 digits1, WordB],
      Template [TLit ''1'', TGroup 2]),
     (Rep (\<lambda>c. c = CHR ''.'') 3 None, Template [TLit ''...'']),
     (Rep (\<lambda>c. c = CHR ''!'') 2 None, Template [TLit ''!'']),
     (Rep (\<lambda>c. c = CHR ''?'') 2 None, Template [TLit ''?'']) ]\<close>

text \<open>The loop \<^verbatim>\<open>for pattern, replacement in ...: text = re.sub(...)\<close>.\<close>

fun apply_patterns :: "(regex \<times> repl) list \<Rightarrow> string \<Rightarrow> error + string" where
  "apply_patterns [] text = Inr text"
| "apply_patterns ((pattern, replacement) # ps) text =
     (case re_sub pattern replacement text of
        Inl e \<Rightarrow> Inl e
      | Inr text' \<Rightarrow> apply_patterns ps text')"

definition fix_ocr_errors :: "string \<Rightarrow> bool \<Rightarrow> error + string" where
  "fix_ocr_errors text aggressive =
     (case apply_patterns OCR_ERROR_PATTERNS text of
        Inl e \<Rightarrow> Inl e
      | Inr text' \<Rightarrow>
          if aggressive then apply_patterns aggressive_patterns text' else Inr text')"


section \<open>The Fragment Reconstructor\<close>

text \<open>\<^verbatim>\<open>str.split(sep)\<close> for a one-character separator, and \<^verbatim>\<open>sep.join(lines)\<close>.\<close>

fun split_on :: "char \<Rightarrow> string \<Rightarrow> string list" where
  "split_on sep [] = [[]]"
| "split_on sep (c # cs) =
     (if c = sep then [] # split_on sep cs
      else (case split_on sep cs of [] \<Rightarrow> [[c]] | l # ls \<Rightarrow> (c # l) # ls))"

fun join :: "string \<Rightarrow> string list \<Rightarrow> string" where
  "join sep [] = []"
| "join sep [l] = l"
| "join sep (l # ls) = l @ sep @ join sep ls"

text \<open>\<^verbatim>\<open>should_join_lines\<close>\<close>

definition should_join_lines :: "string \<Rightarrow> string \<Rightarrow> bool" where
  \<open>should_join_lines line1 line2 =
     (if line1 = [] \<or> line2 = [] then False
      else if (re_search (Seq (Rep is_digit 1 None) Eol) line1 \<comment> \<open>\<^verbatim>\<open>\d+$\<close>\<close>
                 \<and> re_search (Seq Bol (Cls is_ascii_alpha)) line2) \<comment> \<open>\<^verbatim>\<open>^[a-zA-Z]\<close>\<close>
              \<or> (re_search (Seq (Cls is_ascii_lower) Eol) line1 \<comment> \<open>\<^verbatim>\<open>[a-z]$\<close>\<close>
                 \<and> re_search (Seq Bol (Cls is_ascii_lower)) line2) \<comment> \<open>\<^verbatim>\<open>^[a-z]\<close>\<close>
        then True
      else if length line1 < 10 \<and> length line2 < 10 then True
      else False)\<close>

text \<open>
  The inner loop of \<^verbatim>\<open>reconstruct_fragmented_text\<close>: the lines after the current one
  are appended to it while \<^verbatim>\<open>should_join_lines\<close> says so.  The result is the grown
  line and the lines not consumed.
\<close>

fun absorb :: "string \<Rightarrow> string list \<Rightarrow> string \<times> string list" where
  "absorb current_line [] = (current_line, [])"
| "absorb current_line (next_line # rest) =
     (if should_join_lines current_line (strip next_line)
      then absorb (current_line @ '' '' @ strip next_line) rest
      else (current_line, next_line # rest))"

lemma absorb_length: "absorb cur ls = (joined, rest') \<Longrightarrow> length rest' \<le> length ls"
  by (induction ls arbitrary: cur) (auto split: if_splits intro: le_SucI)

text \<open>The outer loop, on the lines from index \<^verbatim>\<open>i\<close> on.\<close>

function reconstruct_lines :: "string list \<Rightarrow> string list" where
  "reconstruct_lines [] = []"
| "reconstruct_lines (l # rest) =
     (let current_line = strip l
      in if current_line = [] then reconstruct_lines rest
         else (case absorb current_line rest of
                 (joined, rest') \<Rightarrow> joined # reconstruct_lines rest'))"
  by pat_completeness auto
termination
  by (relation "measure length") (auto simp: less_Suc_eq_le dest: absorb_length [OF sym])

definition reconstruct_fragmented_text :: "string \<Rightarrow> string" where
  "reconstruct_fragmented_text text = join [newline] (reconstruct_lines (split_on newline text))"

section \<open>The Abbreviation Expander\<close>

definition MEDICAL_ABBREVIATIONS :: "string \<rightharpoonup> string" where
  "MEDICAL_ABBREVIATIONS = map_of
   [ (''mg'', ''milligrams''), (''g'', ''grams''), (''kg'', ''kilograms''),
     (''ml'', ''milliliters''), (''l'', ''liters''), (''mcg'', ''micrograms''),
     (''iu'', ''international units''), (''u'', ''units''),
     (''qd'', ''once daily''), (''q.d.'', ''once daily''), (''od'', ''once daily''),
     (''bid'', ''twice daily''), (''b.i.d.'', ''twice daily''), (''bd'', ''twice daily''),
     (''tid'', ''three times daily''), (''t.i.d.'', ''three times daily''),
     (''tds'', ''three times daily''), (''qid'', ''four times daily''),
     (''q.i.d.'', ''four times daily''), (''qds'', ''four times daily''),
     (''q4h'', ''every 4 hours''), (''q6h'', ''every 6 hours''), (''q8h'', ''every 8 hours''),
     (''q12h'', ''every 12 hours''), (''qhs'', ''at bedtime''), (''prn'', ''as needed''),
     (''p.r.n.'', ''as needed''), (''sos'', ''as needed''),
     (''po'', ''by mouth''), (''p.o.'', ''by mouth''), (''oral'', ''by mouth''),
     (''im'', ''intramuscular injection''), (''iv'', ''intravenous''),
     (''sl'', ''under the tongue''), (''top'', ''apply topically''), (''inh'', ''inhaled''),
     (''pr'', ''per rectum''), (''pv'', ''per vagina''),
     (''am'', ''morning''), (''pm'', ''evening''), (''ac'', ''before meals''),
     (''pc'', ''after meals''), (''hs'', ''at bedtime''), (''mane'', ''in the morning''),
     (''nocte'', ''at night''),
     (''dx'', ''diagnosis''), (''rx'', ''prescription''), (''tx'', ''treatment''),
     (''hx'', ''history''), (''pt'', ''patient''), (''dr'', ''doctor''), (''md'', ''doctor''),
     (''rph'', ''pharmacist''),
     (''tab'', ''tablet''), (''tabs'', ''tablets''), (''cap'', ''capsule''),
     (''caps'', ''capsules''), (''susp'', ''suspension''), (''sol'', ''solution''),
     (''oint'', ''ointment''), (''cr'', ''cream''), (''lot'', ''lotion''), (''gtt'', ''drops''),
     (''inj'', ''injection''), (''syr'', ''syrup''), (''elix'', ''elixir'') ]"

text \<open>The two patterns of the expander: \<^verbatim>\<open>\b\w+\b\<close> and \<^verbatim>\<open>\b\w+\b|\W+\<close>.\<close>

definition word_pattern :: regex where
  "word_pattern = seqs [WordB, Rep is_word 1 None, WordB]"

definition token_pattern :: regex where
  "token_pattern = Alt word_pattern (Rep (\<lambda>c. \<not> is_word c) 1 None)"

text \<open>The body of the loop over the tokens.\<close>

definition expand_token :: "string \<Rightarrow> string" where
  "expand_token word =
     (if \<not> re_match word_pattern word then word
      else
        let clean_word = strip_chars is_punct (lower word)
        in (case MEDICAL_ABBREVIATIONS clean_word of
              Some replacement \<Rightarrow>
                (if isupper word then upper replacement
                 else if istitle word then title replacement
                 else replacement) @ '' ('' @ word @ '')''
            | None \<Rightarrow> word))"

definition replace_medical_abbreviations_enhanced :: "string \<Rightarrow> string" where
  "replace_medical_abbreviations_enhanced text =
     concat (map expand_token (findall token_pattern text))"


section \<open>The Formatter\<close>

fun alts :: "regex list \<Rightarrow> regex" where
  "alts [] = NotAhead Eps"
| "alts [r] = r"
| "alts (r # rs) = Alt r (alts rs)"

definition spaces1 :: regex where
  "spaces1 = Rep is_space 1 None"

definition capitalised :: regex where
  "capitalised = Seq (Cls is_ascii_upper) (Rep is_ascii_lower 1 None)"

text \<open>The substitutions of \<^verbatim>\<open>clean_formatting_enhanced\<close>, in the order of its statements.\<close>

definition formatting_rules :: "(regex \<times> repl) list" where
  \<open>formatting_rules =
   [ \<comment> \<open>\<^verbatim>\<open>\s+([.,;:!?])\<close> to \<^verbatim>\<open>\1\<close>\<close>
     (Seq spaces1 (Group 1 (Cls is_punct)), Template [TGroup 1]),
     \<comment> \<open>\<^verbatim>\<open>([.,;:!?])(?=[^\s])\<close> to \<^verbatim>\<open>\1 \<close>\<close>
     (Seq (Group 1 (Cls is_punct)) (Ahead (Cls (\<lambda>c. \<not> is_space c))),
      Template [TGroup 1, TLit '' '']),
     \<comment> \<open>\<^verbatim>\<open>(\d+)\s*([a-zA-Z]+)\s+(\d+)\<close> to \<^verbatim>\<open>\1\2 \3\<close>\<close>
     (seqs [Group 1 digits1, Rep is_space 0 None, Group 2 (Rep is_ascii_alpha 1 None),
            spaces1, Group 3 digits1],
      Template [TGroup 1, TGroup 2, TLit '' '', TGroup 3]),
     \<comment> \<open>\<^verbatim>\<open>(\d+)\s+(mg|g|ml|mcg|tabs?|caps?)\b\<close> to \<^verbatim>\<open>\1 \2\<close>\<close>
     (seqs [Group 1 digits1, spaces1,
            Group 2 (alts [lit ''mg'', lit ''g'', lit ''ml'', lit ''mcg'',
                           Seq (lit ''tab'') (Rep (\<lambda>c. c = CHR ''s'') 0 (Some 1)),
                           Seq (lit ''cap'') (Rep (\<lambda>c. c = CHR ''s'') 0 (Some 1))]),
            WordB],
      Template [TGroup 1, TLit '' '', TGroup 2]),
     \<comment> \<open>\<^verbatim>\<open>\s{3,}\<close> to three spaces\<close>
     (Rep is_space 3 None, Template [TLit ''   '']),
     \<comment> \<open>\<^verbatim>\<open>\n{3,}\<close> to two newlines\<close>
     (Rep (\<lambda>c. c = newline) 3 None, Template [TLit [newline, newline]]),
     \<comment> \<open>\<^verbatim>\<open>\b([A-Z][a-z]+)\s+([A-Z][a-z]+)\s+(\d+\s*mg)\<close> to \<^verbatim>\<open>\1 \2 \3\<close>\<close>
     (seqs [WordB, Group 1 capitalised, spaces1, Group 2 capitalised, spaces1,
            Group 3 (seqs [digits1, Rep is_space 0 None, lit ''mg''])],
      Template [TGroup 1, TLit '' '', TGroup 2, TLit '' '', TGroup 3]) ]\<close>

definition clean_formatting_enhanced :: "string \<Rightarrow> error + string" where
  "clean_formatting_enhanced text =
     (case apply_patterns formatting_rules text of
        Inl e \<Rightarrow> Inl e
      | Inr text' \<Rightarrow> Inr (strip text'))"

section \<open>The Validator\<close>

datatype quality = EXCELLENT | GOOD | ACCEPTABLE | POOR | FAILED

definition MIN_TEXT_LENGTH :: nat where
  "MIN_TEXT_LENGTH = 3"

text \<open>The decimal numeral of a length, as an f-string prints it.\<close>

fun digit_char :: "nat \<Rightarrow> char" where
  "digit_char n = char_of (48 + n mod 10)"

function str_nat :: "nat \<Rightarrow> string" where
  "str_nat n = (if n < 10 then [digit_char n] else str_nat (n div 10) @ [digit_char n])"
  by pat_completeness auto
termination
  by (relation "measure id") auto

text \<open>\<^verbatim>\<open>a in b\<close> on strings.\<close>

fun is_substr :: "string \<Rightarrow> string \<Rightarrow> bool" where
  "is_substr xs [] = (xs = [])"
| "is_substr xs (y # ys) = (prefix xs (y # ys) \<or> is_substr xs ys)"

definition medical_indicators :: "string list" where
  "medical_indicators =
     [''mg'', ''ml'', ''tablet'', ''capsule'', ''daily'', ''times'', ''take'', ''rx'']"

text \<open>The pattern \<^verbatim>\<open>\[.*?\]\<close>.\<close>

definition bracket_pattern :: regex where
  "bracket_pattern = seqs [chr CHR ''['', RepLazy is_dot 0 None, chr CHR '']'']"

text \<open>The statement \<^verbatim>\<open>re.sub(r'\[.*?\]', '', text)\<close>.\<close>

definition strip_brackets :: "string \<Rightarrow> error + string" where
  "strip_brackets text = re_sub bracket_pattern (Template []) text"

text \<open>The number of marker words that occur in the cleaned text, case folded.\<close>

definition count_indicators :: "string \<Rightarrow> nat" where
  "count_indicators clean_text =
     length (filter (\<lambda>indicator. is_substr (lower indicator) (lower clean_text))
               medical_indicators)"

text \<open>
  \<^verbatim>\<open>validate_extracted_text_enhanced\<close>.  The ratio of printable characters is a
  division by the length of the cleaned text, which raises when that text is empty; the
  comparison of the ratio with 0.7 is written without the division.
\<close>

definition validate_extracted_text_enhanced ::
    "string \<Rightarrow> rat \<Rightarrow> error + (bool \<times> quality \<times> string list)" where
  "validate_extracted_text_enhanced text confidence_score =
     (if text = [] \<or> strip text = []
      then Inr (False, FAILED, [''No text could be extracted from the image''])
      else
        (case strip_brackets text of
           Inl e \<Rightarrow> Inl e
         | Inr stripped \<Rightarrow>
            let clean_text = strip stripped;
                n = length clean_text;
                s1 = (if n < MIN_TEXT_LENGTH
                      then [''Text is very short ('' @ str_nat n @ '' chars)''] else [])
            in if n = 0 then Inl ZeroDivisionError
               else
                 let s2 = s1 @ (if 10 * length (filter is_printable clean_text) < 7 * n
                                then [''Text contains many unreadable characters''] else []);
                     found_indicators = count_indicators clean_text;
                     s3 = s2 @ (if found_indicators = 0
                                then [''Text doesn't appear to contain medical prescription information'']
                                else []);
                     (quality_score, suggestions) =
                       (if confidence_score \<ge> 80 \<and> n > 50 \<and> found_indicators \<ge> 2
                          then (EXCELLENT, s3)
                        else if confidence_score \<ge> 60 \<and> n > 30 \<and> found_indicators \<ge> 1
                          then (GOOD, s3)
                        else if confidence_score \<ge> 40 \<and> n > 15
                          then (ACCEPTABLE, s3)
                        else if n > MIN_TEXT_LENGTH
                          then (POOR, s3 @ [''Consider retaking the image with better lighting and focus''])
                        else (FAILED, s3 @ [''Image quality too poor for reliable text extraction'']));
                     is_valid = (quality_score \<in> {EXCELLENT, GOOD, ACCEPTABLE})
                 in Inr (is_valid, quality_score, suggestions)))"

section \<open>Double-precision numbers\<close>

text \<open>
  The confidences of the source are Python floats, that is IEEE 754 binary64 numbers.  A
  finite one is modelled by the rational number it stands for.  An operation of the source
  gives the exact result rounded to the nearest double, a tie going to the even
  significand; \<open>to_double\<close> is that rounding, and \<open>None\<close> when the rounded magnitude is beyond
  the largest double.
\<close>

text \<open>The position of the leading binary digit of a positive whole number.\<close>

fun ilog2 :: "nat \<Rightarrow> nat" where
  "ilog2 n = (if n < 2 then 0 else Suc (ilog2 (n div 2)))"

text \<open>The exponent \<open>k\<close> with \<open>2 powi k \<le> x < 2 powi (k + 1)\<close>, for a positive \<open>x\<close>.\<close>

definition floor_log2 :: "rat \<Rightarrow> int" where
  "floor_log2 x =
     (if 1 \<le> x then int (ilog2 (nat \<lfloor>x\<rfloor>))
      else - 1 - int (ilog2 (nat (\<lceil>1 / x\<rceil> - 1))))"

definition round_half_even :: "rat \<Rightarrow> int" where
  "round_half_even y =
     (let n = \<lfloor>y\<rfloor>; r = y - of_int n
      in if r < 1 / 2 then n else if 1 / 2 < r then n + 1 else if even n then n else n + 1)"

text \<open>
  A double has a significand of 53 binary digits, and its last digit is worth at least
  \<open>2 powi (- 1074)\<close>.
\<close>

definition to_double :: "rat \<Rightarrow> rat option" where
  "to_double x =
     (if x = 0 then Some 0
      else let e = max (floor_log2 \<bar>x\<bar> - 52) (- 1074);
               r = of_int (round_half_even (x / 2 powi e)) * 2 powi e
           in if \<bar>r\<bar> < 2 ^ 1024 then Some r else None)"

text \<open>The literal \<^verbatim>\<open>0.8\<close>: the double nearest to eight tenths, a little above it.\<close>

definition point_eight :: rat where
  "point_eight = 3602879701896397 / 4503599627370496"

section \<open>The OCR Attempt Orchestrator\<close>

text \<open>
  The OCR engine is outside the program.  One invocation under a configuration is
  modelled by what it hands back: \<open>None\<close> when \<^verbatim>\<open>image_to_string\<close> raises, else the
  text and the outcome of \<^verbatim>\<open>image_to_data\<close>, which is \<open>None\<close> when that call raises and
  else the entries of \<^verbatim>\<open>data['conf']\<close>.  An entry is a whole number after \<^verbatim>\<open>int(x)\<close>, or
  one on which \<^verbatim>\<open>int(x)\<close> raises.
\<close>

datatype conf_value = Conf int | Unparsable

type_synonym ocr_outcome = "(string \<times> conf_value list option) option"

fun py_int :: "conf_value \<Rightarrow> int option" where
  "py_int (Conf n) = Some n"
| "py_int Unparsable = None"

fun ints_of :: "conf_value list \<Rightarrow> int list option" where
  "ints_of [] = Some []"
| "ints_of (x # xs) =
     (case py_int x of
        None \<Rightarrow> None
      | Some n \<Rightarrow> (case ints_of xs of None \<Rightarrow> None | Some ns \<Rightarrow> Some (n # ns)))"

text \<open>
  The \<^verbatim>\<open>try\<close> block that computes \<^verbatim>\<open>avg_confidence\<close>, with its \<^verbatim>\<open>except\<close>, as the
  exact number that the expression denotes.
\<close>

definition derived_confidence :: "conf_value list option \<Rightarrow> rat" where
  "derived_confidence data =
     (case data of
        None \<Rightarrow> 50
      | Some conf \<Rightarrow>
          (case ints_of conf of
             None \<Rightarrow> 50
           | Some ns \<Rightarrow>
               let confidences = filter (\<lambda>n. n > 0) ns
               in if confidences = [] then 0
                  else of_int (sum_list confidences) / of_nat (length confidences)))"

text \<open>
  The value that the block leaves in \<^verbatim>\<open>avg_confidence\<close>.  The division of two whole
  numbers gives the double nearest to the quotient; when that is beyond the largest
  double the division raises \<^verbatim>\<open>OverflowError\<close>, and the \<^verbatim>\<open>except\<close> gives 50.
\<close>

definition avg_confidence :: "conf_value list option \<Rightarrow> rat" where
  "avg_confidence data =
     (case to_double (derived_confidence data) of None \<Rightarrow> 50 | Some a \<Rightarrow> a)"

text \<open>
  The test \<^verbatim>\<open>avg_confidence >= best_confidence * 0.8\<close>.  The product is rounded to a
  double.  A product beyond the largest double is an infinity with the sign of
  \<^verbatim>\<open>best_confidence\<close>; this does not happen when \<^verbatim>\<open>best_confidence\<close> is a double.
\<close>

definition at_least_scaled :: "rat \<Rightarrow> rat \<Rightarrow> bool" where
  "at_least_scaled avg best_confidence =
     (case to_double (best_confidence * point_eight) of
        Some product \<Rightarrow> avg \<ge> product
      | None \<Rightarrow> best_confidence < 0)"

text \<open>The body of the loop over the configurations.\<close>

fun update_best :: "string \<times> rat \<Rightarrow> ocr_outcome \<Rightarrow> string \<times> rat" where
  "update_best (best_text, best_confidence) None = (best_text, best_confidence)"
| "update_best (best_text, best_confidence) (Some (text, data)) =
     (let avg = avg_confidence data
      in if strip text \<noteq> []
            \<and> (avg > best_confidence
               \<or> (at_least_scaled avg best_confidence
                  \<and> length (strip text) > length best_text))
         then (strip text, avg)
         else (best_text, best_confidence))"

definition select_best :: "ocr_outcome list \<Rightarrow> string \<times> rat" where
  "select_best attempts = foldl update_best ([], 0) attempts"

text \<open>
  \<^verbatim>\<open>enhanced_ocr_extraction\<close>, given the outcomes of the configurations in their order and
  the outcome of the attempt on the original image (\<open>None\<close> when it raises).
\<close>

definition enhanced_ocr_extraction :: "ocr_outcome list \<Rightarrow> string option \<Rightarrow> bool \<times> string \<times> rat" where
  "enhanced_ocr_extraction attempts original =
     (let (best_text, best_confidence) = select_best attempts;
          (best_text, best_confidence) =
            (if best_text = [] \<or> best_confidence < 30
             then (case original of
                     None \<Rightarrow> (best_text, best_confidence)
                   | Some text \<Rightarrow>
                       if strip text \<noteq> [] then (strip text, max best_confidence 40)
                       else (best_text, best_confidence))
             else (best_text, best_confidence));
          success = (best_text \<noteq> [] \<and> length (strip best_text) \<ge> MIN_TEXT_LENGTH)
      in (success, best_text, best_confidence))"


section \<open>Notions used in the statements\<close>

text \<open>Whether the character before, or the one at, a position is a word character.\<close>

definition word_before :: "char option \<Rightarrow> bool" where
  "word_before pv = (case pv of None \<Rightarrow> False | Some c \<Rightarrow> is_word c)"

definition word_after :: "string \<Rightarrow> bool" where
  "word_after rest = (case rest of [] \<Rightarrow> False | c # _ \<Rightarrow> is_word c)"

text \<open>
  The token that starts at a position: the run of word characters when the text starts
  with one, and else the run of other characters.
\<close>

definition token_at :: "string \<Rightarrow> string" where
  "token_at rest =
     (if word_after rest then takeWhile is_word rest else takeWhile (\<lambda>c. \<not> is_word c) rest)"


declare findall_loop.simps [simp del] sub_loop.simps [simp del] ilog2.simps [simp del]

section \<open>Facts about the matcher\<close>

lemma rep_counts_None: "rep_counts p lo None rest = [lo ..< Suc (length (takeWhile p rest))]"
  by (simp add: rep_counts_def Let_def)

lemma ends_Rep_none:
  "length (takeWhile p rest) < lo \<Longrightarrow> ends (Rep p lo None) (pv, rest, g) = []"
  by (simp add: rep_counts_None)

lemma ends_Rep_greedy:
  assumes "lo \<le> length (takeWhile p rest)"
  shows "ends (Rep p lo None) (pv, rest, g) =
      (last_char pv (takeWhile p rest), dropWhile p rest, g)
        # map (\<lambda>n. (last_char pv (take n rest), drop n rest, g))
            (rev [lo ..< length (takeWhile p rest)])"
proof -
  define k where "k = length (takeWhile p rest)"
  have "[lo ..< Suc k] = [lo ..< k] @ [k]" using assms by (simp add: k_def)
  then have r: "rev (rep_counts p lo None rest) = k # rev [lo ..< k]"
    by (simp add: rep_counts_None k_def [symmetric])
  have t: "take k rest = takeWhile p rest" unfolding k_def by (rule takeWhile_eq_take [symmetric])
  have d: "drop k rest = dropWhile p rest" unfolding k_def by (rule dropWhile_eq_drop [symmetric])
  have "ends (Rep p lo None) (pv, rest, g) =
      map (\<lambda>n. (last_char pv (take n rest), drop n rest, g)) (rev (rep_counts p lo None rest))"
    by simp
  also have "\<dots> = (last_char pv (take k rest), drop k rest, g)
        # map (\<lambda>n. (last_char pv (take n rest), drop n rest, g)) (rev [lo ..< k])"
    unfolding r by simp
  finally have "ends (Rep p lo None) (pv, rest, g) =
      (last_char pv (takeWhile p rest), dropWhile p rest, g)
        # map (\<lambda>n. (last_char pv (take n rest), drop n rest, g)) (rev [lo ..< k])"
    unfolding t d .
  then show ?thesis unfolding k_def .
qed

lemma dropWhile_head: "dropWhile p xs = y # ys \<Longrightarrow> \<not> p y"
  using hd_dropWhile [of p xs] by auto

lemma last_takeWhile: "takeWhile p xs \<noteq> [] \<Longrightarrow> p (last (takeWhile p xs))"
  using set_takeWhileD [of "last (takeWhile p xs)" p xs] last_in_set by blast


lemma match_here_first:
  assumes "ends r (pv, rest, Map.empty) = (pv', rest', g) # xs" "length rest' < length rest"
  shows "match_here r adv pv rest = Some (take (length rest - length rest') rest, g)"
  using assms by (simp add: match_here_def)

lemma match_here_none: "ends r (pv, rest, Map.empty) = [] \<Longrightarrow> match_here r adv pv rest = None"
  by (simp add: match_here_def)

lemma take_length_dropWhile:
  "take (length rest - length (dropWhile p rest)) rest = takeWhile p rest"
proof -
  have "length rest = length (takeWhile p rest) + length (dropWhile p rest)"
    by (metis length_append takeWhile_dropWhile_id)
  then have "length rest - length (dropWhile p rest) = length (takeWhile p rest)" by simp
  then show ?thesis by (simp add: takeWhile_eq_take [symmetric])
qed

lemma length_dropWhile_less: "rest \<noteq> [] \<Longrightarrow> p (hd rest) \<Longrightarrow> length (dropWhile p rest) < length rest"
  by (cases rest) (auto simp: less_Suc_eq_le length_dropWhile_le)

lemma sub_loop_no_match: "search r adv pv rest = None \<Longrightarrow> sub_loop r f adv pv rest = rest"
  by (subst sub_loop.simps) simp

lemma sub_loop_Nil: "match_here r adv pv [] = None \<Longrightarrow> sub_loop r f adv pv [] = []"
  by (subst sub_loop.simps) simp

lemma last_char_Cons: "last_char pv (c # m) = last_char (Some c) m"
  by (simp add: last_char_def)

lemma sub_loop_skip:
  assumes "match_here r adv pv (c # cs) = None"
  shows "sub_loop r f adv pv (c # cs) = c # sub_loop r f False (Some c) cs"
proof (cases "search r False (Some c) cs")
  case None
  then have "search r adv pv (c # cs) = None" using assms by simp
  then have "sub_loop r f adv pv (c # cs) = c # cs" by (rule sub_loop_no_match)
  moreover from None have "sub_loop r f False (Some c) cs = cs" by (rule sub_loop_no_match)
  ultimately show ?thesis by simp
next
  case (Some a)
  obtain skip m g where a: "a = (skip, m, g)" by (cases a)
  from Some a assms have s: "search r adv pv (c # cs) = Some (c # skip, m, g)" by simp
  have "sub_loop r f adv pv (c # cs) =
      (c # skip) @ f g m @ sub_loop r f (m = []) (last_char pv ((c # skip) @ m))
         (drop (length (c # skip) + length m) (c # cs))"
    by (subst sub_loop.simps) (simp only: s option.case prod.case)
  moreover have "sub_loop r f False (Some c) cs =
      skip @ f g m @ sub_loop r f (m = []) (last_char (Some c) (skip @ m))
         (drop (length skip + length m) cs)"
    by (subst sub_loop.simps) (simp only: Some a option.case prod.case)
  ultimately show ?thesis by (simp add: last_char_Cons)
qed

lemma sub_loop_match:
  assumes "match_here r adv pv s = Some (m, g)" "m \<noteq> []"
  shows "sub_loop r f adv pv s = f g m @ sub_loop r f False (last_char pv m) (drop (length m) s)"
proof -
  have "search r adv pv s = Some ([], m, g)" using assms(1) by (cases s) simp_all
  then show ?thesis using assms(2) by (subst sub_loop.simps) simp
qed

section \<open>The Error Corrector raises on every input\<close>

text \<open>
  Claim C1.  The template of the third standard pattern refers to group 2 of a pattern
  with one group, so compiling it fails before any text is looked at: the Error Corrector
  returns no text for any input, in either mode.
\<close>

lemma fix_ocr_errors_error: "fix_ocr_errors text aggressive = Inl (InvalidGroupReference 2)"
  by (simp add: fix_ocr_errors_def OCR_ERROR_PATTERNS_def re_sub_def digits1_def chr_def)

theorem fix_ocr_errors_raises:
  "fix_ocr_errors text aggressive = Inl (InvalidGroupReference 2)"
  by (rule fix_ocr_errors_error)

lemma space_not_newline: "CHR '' '' \<noteq> newline"
  by (simp add: newline_def)

text \<open>
  Claim C6.  On \<^verbatim>\<open>Take 1O mg bid\<close> the two digit/letter substitutions that run before
  the fault leave the text as it is (they ask for digits on both sides of the letter), and
  the Error Corrector raises.
\<close>

theorem fix_ocr_errors_Take_1O:
  "apply_patterns (take 2 OCR_ERROR_PATTERNS) ''Take 1O mg bid'' = Inr ''Take 1O mg bid''
   \<and> fix_ocr_errors ''Take 1O mg bid'' False = Inl (InvalidGroupReference 2)"
  by code_simp

section \<open>The Fragment Reconstructor leaves no empty line\<close>

lemma split_on_nonempty: "split_on sep s \<noteq> []"
  by (induction s) (auto split: list.splits)

lemma split_on_no_sep: "l \<in> set (split_on sep s) \<Longrightarrow> sep \<notin> set l"
proof (induction s arbitrary: l)
  case Nil
  then show ?case by simp
next
  case (Cons c cs)
  show ?case
  proof (cases "c = sep")
    case True
    with Cons show ?thesis by auto
  next
    case False
    obtain h t where ht: "split_on sep cs = h # t"
      using split_on_nonempty [of sep cs] by (cases "split_on sep cs") auto
    with Cons.prems False have "l = c # h \<or> l \<in> set t" by auto
    then show ?thesis
    proof
      assume "l = c # h"
      moreover have "sep \<notin> set h" using Cons.IH [of h] ht by simp
      ultimately show ?thesis using False by auto
    next
      assume "l \<in> set t"
      then show ?thesis using Cons.IH [of l] ht by simp
    qed
  qed
qed

lemma split_on_line: "sep \<notin> set l \<Longrightarrow> split_on sep (l @ sep # s) = l # split_on sep s"
  by (induction l) auto

lemma split_on_single: "sep \<notin> set l \<Longrightarrow> split_on sep l = [l]"
  by (induction l) auto

lemma split_on_join:
  "ls \<noteq> [] \<Longrightarrow> \<forall>l \<in> set ls. sep \<notin> set l \<Longrightarrow> split_on sep (join [sep] ls) = ls"
proof (induction ls)
  case Nil
  then show ?case by simp
next
  case (Cons l ls)
  show ?case
  proof (cases ls)
    case Nil
    with Cons.prems show ?thesis by (simp add: split_on_single)
  next
    case (Cons l' ls')
    with Cons.prems Cons.IH have "split_on sep (join [sep] ls) = ls" by simp
    with Cons Cons.prems show ?thesis by (simp add: split_on_line)
  qed
qed

lemma set_strip_chars: "set (strip_chars p s) \<subseteq> set s"
proof -
  have "set (strip_chars p s) \<subseteq> set (dropWhile p s)"
    unfolding strip_chars_def using set_dropWhileD [of _ p "rev (dropWhile p s)"] by auto
  also have "\<dots> \<subseteq> set s" using set_dropWhileD [of _ p s] by auto
  finally show ?thesis .
qed

lemma set_strip: "set (strip s) \<subseteq> set s"
  by (simp add: strip_def set_strip_chars)

lemma absorb_lines:
  assumes "absorb cur ls = (joined, rest')" "cur \<noteq> []" "newline \<notin> set cur"
    "\<forall>l \<in> set ls. newline \<notin> set l"
  shows "joined \<noteq> [] \<and> newline \<notin> set joined \<and> (\<forall>l \<in> set rest'. newline \<notin> set l)"
  using assms
proof (induction ls arbitrary: cur)
  case Nil
  then show ?case by simp
next
  case (Cons n ls)
  show ?case
  proof (cases "should_join_lines cur (strip n)")
    case True
    have "newline \<notin> set (strip n)" using Cons.prems(4) set_strip [of n] by auto
    with Cons.prems space_not_newline
    have "newline \<notin> set (cur @ '' '' @ strip n)" by auto
    moreover from True Cons.prems(1)
    have "absorb (cur @ '' '' @ strip n) ls = (joined, rest')" by simp
    ultimately show ?thesis using Cons.IH [of "cur @ '' '' @ strip n"] Cons.prems(4) by simp
  next
    case False
    with Cons.prems show ?thesis by auto
  qed
qed

lemma reconstruct_lines_ok:
  "\<forall>l \<in> set ls. newline \<notin> set l \<Longrightarrow>
   \<forall>l \<in> set (reconstruct_lines ls). l \<noteq> [] \<and> newline \<notin> set l"
proof (induction ls rule: reconstruct_lines.induct)
  case 1
  then show ?case by simp
next
  case (2 l rest)
  show ?case
  proof (cases "strip l = []")
    case True
    with 2 show ?thesis by simp
  next
    case False
    obtain joined rest' where a: "absorb (strip l) rest = (joined, rest')"
      by (cases "absorb (strip l) rest")
    have nl: "newline \<notin> set (strip l)" using "2.prems" set_strip [of l] by auto
    from absorb_lines [OF a False nl] "2.prems"
    have j: "joined \<noteq> [] \<and> newline \<notin> set joined" and r: "\<forall>l \<in> set rest'. newline \<notin> set l"
      by simp_all
    from "2.IH"(2) [OF refl False a [symmetric] r]
    have "\<forall>l \<in> set (reconstruct_lines rest'). l \<noteq> [] \<and> newline \<notin> set l" .
    with j a False show ?thesis by simp
  qed
qed

text \<open>
  Claim C8.  The lines the Fragment Reconstructor emits are all non-empty and hold no
  newline, and they are the lines of its output: unless the output is empty, splitting it
  at the newlines gives them back.  So empty input lines are dropped and no line of the
  output is empty.
\<close>

theorem reconstruct_fragmented_text_no_empty_line:
  "(\<forall>l \<in> set (reconstruct_lines (split_on newline text)). l \<noteq> [] \<and> newline \<notin> set l)
   \<and> (reconstruct_fragmented_text text = []
      \<or> split_on newline (reconstruct_fragmented_text text)
          = reconstruct_lines (split_on newline text))"
proof -
  let ?ls = "reconstruct_lines (split_on newline text)"
  have a: "\<forall>l \<in> set ?ls. l \<noteq> [] \<and> newline \<notin> set l"
    by (rule reconstruct_lines_ok) (simp add: split_on_no_sep)
  have "?ls = [] \<or> split_on newline (join [newline] ?ls) = ?ls"
    using split_on_join [of ?ls newline] a by blast
  then have "reconstruct_fragmented_text text = []
      \<or> split_on newline (reconstruct_fragmented_text text) = ?ls"
    by (auto simp: reconstruct_fragmented_text_def)
  with a show ?thesis by blast
qed

theorem reconstruct_fragmented_text_no_empty_line_witness:
  "reconstruct_lines (split_on newline (''rx:'' @ [newline] @ ''tab'' @ [newline, newline] @ ''  qd '' @ [newline] @ ''take it''))
     = [''rx: tab'', ''qd take it'']
   \<and> split_on newline (reconstruct_fragmented_text (''rx:'' @ [newline] @ ''tab'' @ [newline, newline] @ ''  qd '' @ [newline] @ ''take it''))
        = [''rx: tab'', ''qd take it'']"
proof -
  let ?t = "''rx:'' @ [newline] @ ''tab'' @ [newline, newline] @ ''  qd '' @ [newline] @ ''take it''"
  have l: "reconstruct_lines (split_on newline ?t) = [''rx: tab'', ''qd take it'']"
    by code_simp
  have n: "reconstruct_fragmented_text ?t \<noteq> []"
    by code_simp
  note th = reconstruct_fragmented_text_no_empty_line [of ?t]
  from th have "reconstruct_fragmented_text ?t = []
      \<or> split_on newline (reconstruct_fragmented_text ?t) = reconstruct_lines (split_on newline ?t)"
    by (rule conjunct2)
  with n have b: "split_on newline (reconstruct_fragmented_text ?t)
      = reconstruct_lines (split_on newline ?t)"
    by blast
  show ?thesis
  proof (intro conjI)
    show "reconstruct_lines (split_on newline ?t) = [''rx: tab'', ''qd take it'']" by (rule l)
    show "split_on newline (reconstruct_fragmented_text ?t) = [''rx: tab'', ''qd take it'']"
      using b l by (rule trans)
  qed
qed

section \<open>The Abbreviation Expander\<close>



lemma at_word_boundary_iff: "at_word_boundary pv rest = (word_before pv \<noteq> word_after rest)"
  by (simp add: at_word_boundary_def word_before_def word_after_def)

lemma word_after_dropWhile: "\<not> word_after (dropWhile is_word rest)"
proof (cases "dropWhile is_word rest")
  case Nil
  show ?thesis unfolding word_after_def Nil by simp
next
  case (Cons y ys)
  from dropWhile_head [OF Cons] show ?thesis unfolding word_after_def Cons by simp
qed

lemma word_after_dropWhile_not:
  "dropWhile (\<lambda>c. \<not> is_word c) rest = [] \<or> word_after (dropWhile (\<lambda>c. \<not> is_word c) rest)"
proof (cases "dropWhile (\<lambda>c. \<not> is_word c) rest")
  case Nil
  then show ?thesis by simp
next
  case (Cons y ys)
  from dropWhile_head [OF Cons] show ?thesis unfolding word_after_def Cons by simp
qed

lemma ends_word_pattern_word:
  assumes "is_word c" "\<not> word_before pv"
  shows "\<exists>xs. ends word_pattern (pv, c # cs, g) =
     (Some (last (takeWhile is_word (c # cs))), dropWhile is_word (c # cs), g) # xs"
proof -
  let ?rest = "c # cs"
  let ?tw = "takeWhile is_word ?rest"
  have tw: "?tw \<noteq> []" using assms(1) by simp
  have b: "at_word_boundary pv ?rest"
    using assms by (simp add: at_word_boundary_iff word_after_def)
  have lo: "1 \<le> length ?tw" using assms(1) by simp
  have lc: "last_char pv ?tw = Some (last ?tw)" using tw by (simp add: last_char_def)
  have b2: "at_word_boundary (Some (last ?tw)) (dropWhile is_word ?rest)"
    using last_takeWhile [OF tw] word_after_dropWhile [of ?rest]
    by (simp add: at_word_boundary_iff word_before_def)
  have "ends word_pattern (pv, ?rest, g) =
      concat (map (ends WordB) (ends (Rep is_word 1 None) (pv, ?rest, g)))"
    using b by (simp add: word_pattern_def del: ends.simps(5))
  also have "\<dots> = (Some (last ?tw), dropWhile is_word ?rest, g)
      # concat (map (ends WordB) (map (\<lambda>n. (last_char pv (take n ?rest), drop n ?rest, g))
            (rev [1 ..< length ?tw])))"
    unfolding ends_Rep_greedy [OF lo] lc using b2 by simp
  finally show ?thesis by blast
qed

lemma ends_word_pattern_nonword:
  assumes "\<not> word_after rest"
  shows "ends word_pattern (pv, rest, g) = []"
proof -
  have "takeWhile is_word rest = []" using assms by (cases rest) (auto simp: word_after_def)
  then have "ends (Rep is_word 1 None) (pv, rest, g) = []"
    by (intro ends_Rep_none) simp
  then show ?thesis by (simp add: word_pattern_def del: ends.simps(5))
qed

lemma ends_nonword_run:
  assumes "\<not> is_word c"
  shows "\<exists>xs. ends (Rep (\<lambda>c. \<not> is_word c) 1 None) (pv, c # cs, g) =
     (Some (last (takeWhile (\<lambda>c. \<not> is_word c) (c # cs))),
      dropWhile (\<lambda>c. \<not> is_word c) (c # cs), g) # xs"
proof -
  let ?rest = "c # cs"
  let ?tw = "takeWhile (\<lambda>c. \<not> is_word c) ?rest"
  have tw: "?tw \<noteq> []" using assms by simp
  have lo: "1 \<le> length ?tw" using assms by simp
  have lc: "last_char pv ?tw = Some (last ?tw)" using tw by (simp add: last_char_def)
  show ?thesis unfolding ends_Rep_greedy [OF lo] lc by blast
qed

lemma match_here_token:
  assumes "\<not> (word_before pv \<and> word_after (c # cs))"
  shows "\<exists>g. match_here token_pattern adv pv (c # cs) = Some (token_at (c # cs), g)"
proof (cases "is_word c")
  case True
  with assms have nb: "\<not> word_before pv" by (simp add: word_after_def)
  from ends_word_pattern_word [OF True nb] obtain xs where
    e: "ends word_pattern (pv, c # cs, Map.empty) =
       (Some (last (takeWhile is_word (c # cs))), dropWhile is_word (c # cs), Map.empty) # xs"
    by blast
  have "ends token_pattern (pv, c # cs, Map.empty) =
       (Some (last (takeWhile is_word (c # cs))), dropWhile is_word (c # cs), Map.empty)
        # (xs @ ends (Rep (\<lambda>c. \<not> is_word c) 1 None) (pv, c # cs, Map.empty))"
    unfolding token_pattern_def ends.simps(4) e by simp
  from match_here_first [OF this] True
  have "match_here token_pattern adv pv (c # cs) = Some (takeWhile is_word (c # cs), Map.empty)"
    using length_dropWhile_less [of "c # cs" is_word] by (simp only: take_length_dropWhile) simp
  with True show ?thesis by (simp add: token_at_def word_after_def)
next
  case False
  then have "\<not> word_after (c # cs)" by (simp add: word_after_def)
  from ends_word_pattern_nonword [OF this]
  have e1: "ends word_pattern (pv, c # cs, Map.empty) = []" .
  from ends_nonword_run [OF False] obtain xs where
    e2: "ends (Rep (\<lambda>c. \<not> is_word c) 1 None) (pv, c # cs, Map.empty) =
     (Some (last (takeWhile (\<lambda>c. \<not> is_word c) (c # cs))),
      dropWhile (\<lambda>c. \<not> is_word c) (c # cs), Map.empty) # xs"
    by blast
  have "ends token_pattern (pv, c # cs, Map.empty) =
     (Some (last (takeWhile (\<lambda>c. \<not> is_word c) (c # cs))),
      dropWhile (\<lambda>c. \<not> is_word c) (c # cs), Map.empty) # xs"
    unfolding token_pattern_def ends.simps(4) e1 e2 by simp
  from match_here_first [OF this] False
  have "match_here token_pattern adv pv (c # cs)
      = Some (takeWhile (\<lambda>c. \<not> is_word c) (c # cs), Map.empty)"
    using length_dropWhile_less [of "c # cs" "\<lambda>c. \<not> is_word c"]
    by (simp only: take_length_dropWhile) simp
  with False show ?thesis by (simp add: token_at_def word_after_def)
qed


lemma match_here_token_Nil: "match_here token_pattern adv pv [] = None"
proof -
  have "ends word_pattern (pv, [], Map.empty) = []"
    by (rule ends_word_pattern_nonword) (simp add: word_after_def)
  moreover have "ends (Rep (\<lambda>c. \<not> is_word c) 1 None) (pv, [], Map.empty) = []"
    by (rule ends_Rep_none) simp
  ultimately have "ends token_pattern (pv, [], Map.empty) = []"
    unfolding token_pattern_def ends.simps(4) by simp
  then show ?thesis by (rule match_here_none)
qed

lemma token_at_nonempty: "token_at (c # cs) \<noteq> []"
  by (simp add: token_at_def word_after_def)

lemma token_at_split: "\<exists>rest'. rest = token_at rest @ rest' \<and> 
   \<not> (word_before (last_char pv (token_at rest)) \<and> word_after rest') \<and>
   (rest \<noteq> [] \<longrightarrow> length rest' < length rest)"
proof (cases rest)
  case Nil
  then show ?thesis by (simp add: token_at_def word_after_def)
next
  case (Cons c cs)
  show ?thesis
  proof (cases "is_word c")
    case True
    then have t: "token_at rest = takeWhile is_word rest" by (simp add: token_at_def word_after_def Cons)
    have "rest = token_at rest @ dropWhile is_word rest" by (simp add: t)
    moreover have "\<not> word_after (dropWhile is_word rest)" by (rule word_after_dropWhile)
    moreover have "length (dropWhile is_word rest) < length rest"
      using True length_dropWhile_less [of rest is_word] by (simp add: Cons)
    ultimately show ?thesis by blast
  next
    case False
    then have t: "token_at rest = takeWhile (\<lambda>c. \<not> is_word c) rest"
      by (simp add: token_at_def word_after_def Cons)
    have ne: "token_at rest \<noteq> []" using token_at_nonempty by (simp add: Cons)
    have "\<not> is_word (last (token_at rest))"
      using last_takeWhile [of "\<lambda>c. \<not> is_word c" rest] ne by (simp add: t)
    then have "\<not> word_before (last_char pv (token_at rest))"
      using ne by (simp add: last_char_def word_before_def)
    moreover have "rest = token_at rest @ dropWhile (\<lambda>c. \<not> is_word c) rest" by (simp add: t)
    moreover have "length (dropWhile (\<lambda>c. \<not> is_word c) rest) < length rest"
      using False length_dropWhile_less [of rest "\<lambda>c. \<not> is_word c"] by (simp add: Cons)
    ultimately show ?thesis by blast
  qed
qed

lemma findall_tokens_concat:
  "\<not> (word_before pv \<and> word_after rest) \<Longrightarrow> concat (findall_loop token_pattern adv pv rest) = rest"
proof (induction "length rest" arbitrary: rest pv adv rule: less_induct)
  case less
  show ?case
  proof (cases rest)
    case Nil
    then show ?thesis by (simp add: findall_loop.simps [of _ _ _ "[]"] match_here_token_Nil)
  next
    case (Cons c cs)
    from match_here_token [of pv c cs adv] less.prems obtain g where
      m: "match_here token_pattern adv pv (c # cs) = Some (token_at (c # cs), g)"
      by (auto simp: Cons)
    then have s: "search token_pattern adv pv rest = Some ([], token_at rest, g)"
      by (simp add: Cons)
    from token_at_split [of rest pv] obtain rest' where
      r: "rest = token_at rest @ rest'"
      and i: "\<not> (word_before (last_char pv (token_at rest)) \<and> word_after rest')"
      and l: "length rest' < length rest"
      by (auto simp: Cons)
    have d: "drop (length (token_at rest)) rest = rest'"
      using r by (metis append_eq_conv_conj)
    have ne: "token_at rest \<noteq> []" using token_at_nonempty by (simp add: Cons)
    have "findall_loop token_pattern adv pv rest =
        token_at rest # findall_loop token_pattern False (last_char pv (token_at rest)) rest'"
      by (subst findall_loop.simps) (simp add: s d ne)
    moreover have "concat (findall_loop token_pattern False (last_char pv (token_at rest)) rest') = rest'"
      by (rule less.hyps [OF l i])
    ultimately show ?thesis using r by simp
  qed
qed

lemma concat_findall_tokens: "concat (findall token_pattern text) = text"
  unfolding findall_def by (rule findall_tokens_concat) (simp add: word_before_def)

lemma concat_map_id: "\<forall>x \<in> set xs. f x = x \<Longrightarrow> concat (map f xs) = concat xs"
  by (induction xs) auto

text \<open>
  Claim C10.  When no word token of the text, lowered and stripped of punctuation, is a
  key of the abbreviation table, the Abbreviation Expander returns the text unchanged.
\<close>

theorem expander_identity_without_abbreviations:
  assumes "\<forall>word \<in> set (findall token_pattern text).
      re_match word_pattern word \<longrightarrow> MEDICAL_ABBREVIATIONS (strip_chars is_punct (lower word)) = None"
  shows "replace_medical_abbreviations_enhanced text = text"
proof -
  have "\<forall>word \<in> set (findall token_pattern text). expand_token word = word"
    using assms by (auto simp: expand_token_def Let_def)
  then have "concat (map expand_token (findall token_pattern text)) = concat (findall token_pattern text)"
    by (rule concat_map_id)
  then show ?thesis by (simp add: replace_medical_abbreviations_enhanced_def concat_findall_tokens)
qed

theorem expander_identity_witness:
  "findall token_pattern ''Take 2 pills, now.''
     = [''Take'', '' '', ''2'', '' '', ''pills'', '', '', ''now'', ''.'']
   \<and> replace_medical_abbreviations_enhanced ''Take 2 pills, now.'' = ''Take 2 pills, now.''"
proof -
  have f: "findall token_pattern ''Take 2 pills, now.''
     = [''Take'', '' '', ''2'', '' '', ''pills'', '', '', ''now'', ''.'']"
    by code_simp
  have h: "\<forall>word \<in> set (findall token_pattern ''Take 2 pills, now.'').
      re_match word_pattern word \<longrightarrow> MEDICAL_ABBREVIATIONS (strip_chars is_punct (lower word)) = None"
    by code_simp
  from expander_identity_without_abbreviations [OF h] f show ?thesis by blast
qed

section \<open>The derived confidence of an attempt\<close>






section \<open>Rounding to a double\<close>


















lemma point_eight_eq: "point_eight = (8 / 10) * (1 + 1 / 2 ^ 54)"
  by (simp add: point_eight_def)


section \<open>The selection of the best attempt\<close>

















section \<open>The Validator at length 20 and confidence 50\<close>

lemma strip_chars_Nil: "strip_chars p s = [] \<Longrightarrow> \<forall>c \<in> set s. p c"
proof -
  assume "strip_chars p s = []"
  then have "dropWhile p (rev (dropWhile p s)) = []" by (simp add: strip_chars_def)
  then have a: "\<forall>c \<in> set (dropWhile p s). p c" by (simp add: dropWhile_eq_Nil_conv)
  have "dropWhile p s = []"
  proof (cases "dropWhile p s")
    case Nil
    then show ?thesis .
  next
    case (Cons y ys)
    from dropWhile_head [OF Cons] a Cons show ?thesis by simp
  qed
  then show ?thesis by (simp add: dropWhile_eq_Nil_conv)
qed

lemma match_here_bracket_None:
  "(case rest of [] \<Rightarrow> True | c # _ \<Rightarrow> c \<noteq> CHR ''['') \<Longrightarrow> match_here bracket_pattern adv pv rest = None"
  by (rule match_here_none) (simp add: bracket_pattern_def chr_def split: list.splits)

lemma search_bracket_None: "CHR ''['' \<notin> set rest \<Longrightarrow> search bracket_pattern adv pv rest = None"
proof (induction rest arbitrary: adv pv)
  case Nil
  then show ?case by (simp add: match_here_bracket_None)
next
  case (Cons c cs)
  then have "match_here bracket_pattern adv pv (c # cs) = None"
    by (intro match_here_bracket_None) auto
  with Cons show ?case by simp
qed

lemma space_not_bracket: "is_space c \<Longrightarrow> c \<noteq> CHR ''[''"
  by (auto simp: is_space_def in_range_def code_def)

lemma strip_brackets_blank: "strip text = [] \<Longrightarrow> strip_brackets text = Inr text"
proof -
  assume "strip text = []"
  then have "\<forall>c \<in> set text. is_space c" unfolding strip_def by (rule strip_chars_Nil)
  then have "CHR ''['' \<notin> set text" using space_not_bracket by blast
  then show ?thesis
    by (simp add: strip_brackets_def re_sub_def search_bracket_None sub_loop_no_match)
qed

text \<open>
  Claim C2, amended.  A text whose bracket-stripped, trimmed content has length 20 and
  holds no marker word is graded ACCEPTABLE at confidence 50, and is valid: the
  ACCEPTABLE rule asks for a confidence of 40 and a length above 15.
\<close>

theorem validator_length_20_confidence_50:
  assumes "strip_brackets text = Inr stripped" "length (strip stripped) = 20"
    "count_indicators (strip stripped) = 0"
  shows "\<exists>suggestions.
     validate_extracted_text_enhanced text 50 = Inr (True, ACCEPTABLE, suggestions)"
proof -
  have ne: "strip text \<noteq> []"
  proof
    assume b: "strip text = []"
    from strip_brackets_blank [OF b] assms(1) have "stripped = text" by simp
    with b assms(2) show False by simp
  qed
  then have "text \<noteq> []" by (auto simp: strip_def strip_chars_def)
  moreover from assms(2) have "strip stripped \<noteq> []" by auto
  ultimately show ?thesis using ne assms
    by (simp add: validate_extracted_text_enhanced_def Let_def MIN_TEXT_LENGTH_def)
qed

text \<open>
  Claim C2 as stated fails: this text of length 20 without marker words is graded
  ACCEPTABLE and valid at confidence 50, not POOR and invalid.
\<close>

theorem validator_poor_counterexample:
  "strip_brackets ''Patient should rest.'' = Inr ''Patient should rest.''
   \<and> length (strip ''Patient should rest.'') = 20
   \<and> count_indicators (strip ''Patient should rest.'') = 0
   \<and> validate_extracted_text_enhanced ''Patient should rest.'' 50 =
       Inr (True, ACCEPTABLE, [''Text doesn't appear to contain medical prescription information''])"
  by code_simp

theorem validator_length_20_confidence_50_witness:
  "strip_brackets ''Rest [?] for four days.'' = Inr ''Rest  for four days.''
   \<and> length (strip ''Rest  for four days.'') = 20
   \<and> count_indicators (strip ''Rest  for four days.'') = 0
   \<and> (\<exists>suggestions. validate_extracted_text_enhanced ''Rest [?] for four days.'' 50
         = Inr (True, ACCEPTABLE, suggestions))"
proof -
  have a: "strip_brackets ''Rest [?] for four days.'' = Inr ''Rest  for four days.''" by code_simp
  have b: "length (strip ''Rest  for four days.'') = 20" by code_simp
  have c: "count_indicators (strip ''Rest  for four days.'') = 0" by code_simp
  from validator_length_20_confidence_50 [OF a b c] a b c show ?thesis by blast
qed

end
